theory Spec2Isabelle
  imports Complex_Main
begin

section \<open>The page generator of pnpstitcher (generator/base.py)\<close>

text \<open>
  The generator lays identically sized card images out on pages. The source is Python 3:
  \<open>/\<close> is true division and \<open>round\<close> with one argument returns the nearest integer,
  ties going to the even one. Integers are modelled as \<open>int\<close>. The floating-point
  quantities (inches) are modelled as \<open>real\<close>, in exact arithmetic: the model computes what
  the interpreter computes wherever the floating-point operations involved are exact, as
  they are on binary fractions of moderate size (8.25, 2.75, 1.25), and it can differ from
  the interpreter where they round. All the counters of the loop over the images are
  integers, and what is proved of a run is stated of the layout that the run has computed.
\<close>

subsection \<open>Python primitives\<close>

datatype error = ZeroDivisionError | RuntimeError string

definition true_div :: "real \<Rightarrow> real \<Rightarrow> error + real" where
  "true_div a b = (if b = 0 then Inl ZeroDivisionError else Inr (a / b))"

definition py_round :: "real \<Rightarrow> int" where
  "py_round x =
     (let f = \<lfloor>x\<rfloor>; d = x - of_int f
      in if d < 1 / 2 then f
         else if 1 / 2 < d then f + 1
         else if even f then f else f + 1)"

text \<open>
  \<open>divmod\<close> in exact arithmetic: the floor of the quotient and the remainder. On
  floats the interpreter takes the remainder first and derives the quotient from it, so
  where the divisor is a rounded value its quotient can be one less than the floor of the
  exact quotient (\<open>divmod(8, 480 / 300)\<close> is \<open>(4.0, 1.5999999999999996)\<close>), and a
  quotient beyond the range of floats makes \<open>int\<close> raise \<open>OverflowError\<close>. Neither is
  in the model; on operands whose quotient and remainder are floats both agree.
\<close>

definition py_divmod :: "real \<Rightarrow> real \<Rightarrow> error + real \<times> real" where
  "py_divmod a b =
     (if b = 0 then Inl ZeroDivisionError
      else (let q = of_int \<lfloor>a / b\<rfloor> in Inr (q, a - q * b)))"

definition py_int :: "real \<Rightarrow> int" where
  "py_int x = (if 0 \<le> x then \<lfloor>x\<rfloor> else \<lceil>x\<rceil>)"

subsection \<open>Data\<close>

record CutLine =
  x0 :: real
  y0 :: real
  x1 :: real
  y1 :: real

text \<open>
  The attributes of \<open>BaseGenerator\<close> that \<open>generate\<close> and \<open>_generate_cut_line\<close> read.
  (\<open>filename\<close> and \<open>image_scale\<close> are set by the constructor and read by neither.)
\<close>

record BaseGenerator =
  page_width :: real
  page_height :: real
  page_margin_x :: real
  page_margin_y :: real
  image_dpi :: real
  page_dpi :: real

text \<open>The private attributes that \<open>_generate_cut_line\<close> assigns.\<close>

record layout =
  card_num_x :: int
  cut_margin_x :: real
  card_num_y :: int
  cut_margin_y :: real
  cutline_set :: "CutLine list"

text \<open>The keys of \<open>cutline_config\<close> that the generator reads.\<close>

record cutline_config =
  trim_offset_x :: real
  trim_offset_y :: real
  layer :: string

record 'img image_catalog =
  image_size :: "real \<times> real"
  image_set :: "'img list"

text \<open>
  The four drawing hooks are abstract in the base class; a call of one is recorded as an
  event of the run.
\<close>

datatype 'img call =
    Initialize_page
  | Draw_cutlines cutline_config
  | Draw_image 'img real real "real \<times> real"
  | Render_page

subsection \<open>\<open>_generate_cut_line\<close>\<close>

text \<open>
  Lines 134 to 144: the number of cards on each axis and the centring margins, as
  \<open>(card_num_x, cut_margin_x, card_num_y, cut_margin_y)\<close>.
\<close>

definition grid_capacity ::
    "BaseGenerator \<Rightarrow> real \<times> real \<Rightarrow> error + (int \<times> real \<times> int \<times> real)" where
  "grid_capacity g image_dimension =
     (case true_div (fst image_dimension) (image_dpi g) of
        Inl e \<Rightarrow> Inl e
      | Inr image_width \<Rightarrow>
     (case true_div (snd image_dimension) (image_dpi g) of
        Inl e \<Rightarrow> Inl e
      | Inr image_height \<Rightarrow>
     (case py_divmod (of_int (py_round (page_width g - page_margin_x g * 2))) image_width of
        Inl e \<Rightarrow> Inl e
      | Inr (qx, rx) \<Rightarrow>
     (case py_divmod (of_int (py_round (page_height g - page_margin_y g * 2))) image_height of
        Inl e \<Rightarrow> Inl e
      | Inr (qy, ry) \<Rightarrow>
          Inr (py_int qx, rx / 2 + page_margin_x g,
               py_int qy, ry / 2 + page_margin_y g)))))"

text \<open>Lines 156 to 169: the loop over the columns, \<open>n\<close> iterations remaining.\<close>

fun vertical_loop :: "real \<Rightarrow> real \<Rightarrow> real \<Rightarrow> nat \<Rightarrow> real \<Rightarrow> CutLine list" where
  "vertical_loop ph image_width trim_x 0 prev_x = []"
| "vertical_loop ph image_width trim_x (Suc n) prev_x =
     (let next_x = prev_x + image_width
      in (if trim_x \<noteq> 0
          then (let left_cut = prev_x + trim_x; right_cut = next_x - trim_x
                in [\<lparr>x0 = left_cut, y0 = 0, x1 = left_cut, y1 = ph\<rparr>,
                    \<lparr>x0 = right_cut, y0 = 0, x1 = right_cut, y1 = ph\<rparr>])
          else [\<lparr>x0 = next_x, y0 = 0, x1 = next_x, y1 = ph\<rparr>])
         @ vertical_loop ph image_width trim_x n next_x)"

text \<open>Lines 150 to 169. \<open>range\<close> of a negative number is empty.\<close>

definition vertical_cutlines :: "BaseGenerator \<Rightarrow> real \<Rightarrow> real \<Rightarrow> int \<Rightarrow> real \<Rightarrow> CutLine list" where
  "vertical_cutlines g image_width trim_x num_x margin_x =
     (let prev_x = margin_x
      in (if trim_x = 0
          then [\<lparr>x0 = prev_x, y0 = 0, x1 = prev_x, y1 = page_height g\<rparr>]
          else [])
         @ vertical_loop (page_height g) image_width trim_x (nat num_x) prev_x)"

text \<open>Lines 177 to 189: the loop over the rows.\<close>

fun horizontal_loop :: "real \<Rightarrow> real \<Rightarrow> real \<Rightarrow> nat \<Rightarrow> real \<Rightarrow> CutLine list" where
  "horizontal_loop pw image_height trim_y 0 prev_y = []"
| "horizontal_loop pw image_height trim_y (Suc n) prev_y =
     (let next_y = prev_y + image_height
      in (if trim_y \<noteq> 0
          then (let top_cut = prev_y + trim_y; bottom_cut = next_y - trim_y
                in [\<lparr>x0 = 0, y0 = top_cut, x1 = pw, y1 = top_cut\<rparr>,
                    \<lparr>x0 = 0, y0 = bottom_cut, x1 = pw, y1 = bottom_cut\<rparr>])
          else [\<lparr>x0 = 0, y0 = next_y, x1 = pw, y1 = next_y\<rparr>])
         @ horizontal_loop pw image_height trim_y n next_y)"

text \<open>Lines 171 to 189.\<close>

definition horizontal_cutlines :: "BaseGenerator \<Rightarrow> real \<Rightarrow> real \<Rightarrow> int \<Rightarrow> real \<Rightarrow> CutLine list" where
  "horizontal_cutlines g image_height trim_y num_y margin_y =
     (let prev_y = margin_y
      in (if trim_y = 0
          then [\<lparr>x0 = 0, y0 = prev_y, x1 = page_width g, y1 = prev_y\<rparr>]
          else [])
         @ horizontal_loop (page_width g) image_height trim_y (nat num_y) prev_y)"

text \<open>
  The whole method. Both divisions by \<open>image_dpi\<close> have succeeded once
  \<open>grid_capacity\<close> has, so the image width and height are read off directly.
\<close>

definition generate_cut_line ::
    "BaseGenerator \<Rightarrow> real \<times> real \<Rightarrow> real \<times> real \<Rightarrow> error + layout" where
  "generate_cut_line g image_dimension trim_offset =
     (case grid_capacity g image_dimension of
        Inl e \<Rightarrow> Inl e
      | Inr (num_x, margin_x, num_y, margin_y) \<Rightarrow>
          if num_x = 0 \<or> num_y = 0
          then Inl (RuntimeError ''Image too large for the page'')
          else
            (let image_width = fst image_dimension / image_dpi g;
                 image_height = snd image_dimension / image_dpi g;
                 trim_x = fst trim_offset;
                 trim_y = snd trim_offset
             in Inr \<lparr>card_num_x = num_x, cut_margin_x = margin_x,
                     card_num_y = num_y, cut_margin_y = margin_y,
                     cutline_set =
                       vertical_cutlines g image_width trim_x num_x margin_x
                       @ horizontal_cutlines g image_height trim_y num_y margin_y\<rparr>))"

subsection \<open>\<open>generate\<close>\<close>

text \<open>
  Lines 55 to 84: one iteration of the loop over the images, from the counters
  \<open>(x_cnt, y_cnt)\<close> to the new counters and the hook calls made, in order.
\<close>

definition loop_body ::
    "BaseGenerator \<Rightarrow> layout \<Rightarrow> cutline_config \<Rightarrow> bool \<Rightarrow> real \<Rightarrow> real
     \<Rightarrow> int \<times> int \<Rightarrow> 'img \<Rightarrow> (int \<times> int) \<times> 'img call list" where
  "loop_body g L cutline_cfg rtl image_width image_height cnt pil_image =
     (let x_cnt = fst cnt; y_cnt = snd cnt;
          fresh = (if x_cnt = 0 \<and> y_cnt = 0
                   then Initialize_page #
                        (if layer cutline_cfg = ''bottom'' then [Draw_cutlines cutline_cfg] else [])
                   else []);
          x_pos = (if rtl
                   then page_width g - cut_margin_x L - (of_int (x_cnt + 1) * image_width)
                   else cut_margin_x L + (of_int x_cnt * image_width));
          y_pos = cut_margin_y L + (of_int y_cnt * image_height);
          draw = [Draw_image pil_image x_pos y_pos (image_width, image_height)];
          x_cnt1 = x_cnt + 1;
          x_cnt2 = (if card_num_x L \<le> x_cnt1 then 0 else x_cnt1);
          y_cnt2 = (if card_num_x L \<le> x_cnt1 then y_cnt + 1 else y_cnt)
      in if card_num_y L \<le> y_cnt2
         then ((0, 0),
               fresh @ draw
               @ (if layer cutline_cfg = ''top'' then [Draw_cutlines cutline_cfg] else [])
               @ [Render_page])
         else ((x_cnt2, y_cnt2), fresh @ draw))"

text \<open>Lines 54 to 84: the loop, returning the final counters and all calls made.\<close>

fun image_loop ::
    "BaseGenerator \<Rightarrow> layout \<Rightarrow> cutline_config \<Rightarrow> bool \<Rightarrow> real \<Rightarrow> real
     \<Rightarrow> int \<times> int \<Rightarrow> 'img list \<Rightarrow> (int \<times> int) \<times> 'img call list" where
  "image_loop g L cutline_cfg rtl image_width image_height cnt [] = (cnt, [])"
| "image_loop g L cutline_cfg rtl image_width image_height cnt (pil_image # rest) =
     (let (cnt1, calls1) = loop_body g L cutline_cfg rtl image_width image_height cnt pil_image;
          (cnt2, calls2) = image_loop g L cutline_cfg rtl image_width image_height cnt1 rest
      in (cnt2, calls1 @ calls2))"

text \<open>Lines 88 to 91: the page left over after the loop.\<close>

definition leftover :: "cutline_config \<Rightarrow> int \<times> int \<Rightarrow> 'img call list" where
  "leftover cutline_cfg cnt =
     (if fst cnt \<noteq> 0 \<or> snd cnt \<noteq> 0
      then (if layer cutline_cfg = ''top'' then [Draw_cutlines cutline_cfg] else [])
           @ [Render_page]
      else [])"

text \<open>
  The method \<open>generate\<close>: the calls made on the hooks, and the exception that ended
  the run, if any.
\<close>

definition generate ::
    "BaseGenerator \<Rightarrow> 'img image_catalog \<Rightarrow> cutline_config \<Rightarrow> bool
     \<Rightarrow> 'img call list \<times> error option" where
  "generate g image_catalog cutline_cfg rtl =
     (case generate_cut_line g (image_size image_catalog)
             (trim_offset_x cutline_cfg, trim_offset_y cutline_cfg) of
        Inl e \<Rightarrow> ([], Some e)
      | Inr L \<Rightarrow>
     (case true_div (fst (image_size image_catalog)) (image_dpi g) of
        Inl e \<Rightarrow> ([], Some e)
      | Inr image_width \<Rightarrow>
     (case true_div (snd (image_size image_catalog)) (image_dpi g) of
        Inl e \<Rightarrow> ([], Some e)
      | Inr image_height \<Rightarrow>
          (let (cnt, calls) =
                 image_loop g L cutline_cfg rtl image_width image_height (0, 0)
                   (image_set image_catalog)
           in (calls @ leftover cutline_cfg cnt, None)))))"

subsection \<open>The grid capacity in the words of the specification\<close>

text \<open>
  One axis: the number of cards is the floor of the usable length over the image length,
  and the margin is half of the remainder on top of the page margin.
\<close>

definition axis_capacity :: "real \<Rightarrow> real \<Rightarrow> real \<Rightarrow> int \<times> real" where
  "axis_capacity usable extent margin =
     (let cards = \<lfloor>usable / extent\<rfloor>;
          r = usable - of_int cards * extent
      in (cards, r / 2 + margin))"

text \<open>Both axes, with the usable length as the page length minus twice the margin.\<close>

definition claimed_grid_capacity ::
    "BaseGenerator \<Rightarrow> real \<times> real \<Rightarrow> int \<times> real \<times> int \<times> real" where
  "claimed_grid_capacity g image_dimension =
     (let (cards_per_row, margin_x) =
            axis_capacity (page_width g - 2 * page_margin_x g)
              (fst image_dimension / image_dpi g) (page_margin_x g);
          (cards_per_col, margin_y) =
            axis_capacity (page_height g - 2 * page_margin_y g)
              (snd image_dimension / image_dpi g) (page_margin_y g)
      in (cards_per_row, margin_x, cards_per_col, margin_y))"

text \<open>
  The same with the usable length rounded to an integer first, as the code rounds it: what
  the model of lines 134 to 144 computes, in exact arithmetic.
\<close>

definition rounded_grid_capacity ::
    "BaseGenerator \<Rightarrow> real \<times> real \<Rightarrow> int \<times> real \<times> int \<times> real" where
  "rounded_grid_capacity g image_dimension =
     (let (cards_per_row, margin_x) =
            axis_capacity (of_int (py_round (page_width g - 2 * page_margin_x g)))
              (fst image_dimension / image_dpi g) (page_margin_x g);
          (cards_per_col, margin_y) =
            axis_capacity (of_int (py_round (page_height g - 2 * page_margin_y g)))
              (snd image_dimension / image_dpi g) (page_margin_y g)
      in (cards_per_row, margin_x, cards_per_col, margin_y))"

subsection \<open>Cut lines in the words of the specification\<close>

text \<open>A full-height line at \<open>x\<close> and a full-width line at \<open>y\<close>.\<close>

definition vertical_line :: "real \<Rightarrow> real \<Rightarrow> CutLine" where
  "vertical_line ph x = \<lparr>x0 = x, y0 = 0, x1 = x, y1 = ph\<rparr>"

definition horizontal_line :: "real \<Rightarrow> real \<Rightarrow> CutLine" where
  "horizontal_line pw y = \<lparr>x0 = 0, y0 = y, x1 = pw, y1 = y\<rparr>"


subsection \<open>Observing a run\<close>

text \<open>The kinds of calls.\<close>

fun is_draw :: "'img call \<Rightarrow> bool" where
  "is_draw (Draw_image i x y d) = True"
| "is_draw c = False"

fun is_cutlines :: "'img call \<Rightarrow> bool" where
  "is_cutlines (Draw_cutlines c) = True"
| "is_cutlines c = False"

fun is_render :: "'img call \<Rightarrow> bool" where
  "is_render Render_page = True"
| "is_render c = False"

fun is_init :: "'img call \<Rightarrow> bool" where
  "is_init Initialize_page = True"
| "is_init c = False"

text \<open>
  The counters at the start of iteration \<open>i\<close> of the loop: those that the loop leaves
  after the first \<open>i\<close> images.
\<close>

definition cursor_at ::
    "BaseGenerator \<Rightarrow> layout \<Rightarrow> cutline_config \<Rightarrow> bool \<Rightarrow> real \<Rightarrow> real
     \<Rightarrow> 'img list \<Rightarrow> nat \<Rightarrow> int \<times> int" where
  "cursor_at g L cutline_cfg rtl image_width image_height images i =
     fst (image_loop g L cutline_cfg rtl image_width image_height (0, 0) (take i images))"

text \<open>
  The position of a cell in the words of the specification: right-to-left mirrors the
  column, the row is placed the same way in both modes.
\<close>

definition claimed_position ::
    "BaseGenerator \<Rightarrow> layout \<Rightarrow> bool \<Rightarrow> real \<Rightarrow> real \<Rightarrow> int \<times> int \<Rightarrow> real \<times> real" where
  "claimed_position g L rtl image_width image_height cnt =
     (let column_index = fst cnt; row_index = snd cnt
      in (if rtl
          then page_width g - cut_margin_x L - of_int (column_index + 1) * image_width
          else cut_margin_x L + of_int column_index * image_width,
          cut_margin_y L + of_int row_index * image_height))"

text \<open>
  The order of calls on one page, as an automaton over the calls of a run, for the layer
  \<open>lay\<close>. A page is \<open>Closed\<close> before \<open>_initialize_page\<close> and after \<open>_render_page\<close>;
  \<open>Opened\<close> when started with the cut lines of the bottom layer still due; \<open>Ruled\<close> when
  ready for its first image; \<open>Filled\<close> once an image is drawn; \<open>Finished\<close> when the cut
  lines of the top layer are drawn over the images. Every other call is refused.
\<close>

datatype page_state = Closed | Opened | Ruled | Filled | Finished

fun page_step :: "string \<Rightarrow> page_state \<Rightarrow> 'img call \<Rightarrow> page_state option" where
  "page_step lay Closed Initialize_page = Some (if lay = ''bottom'' then Opened else Ruled)"
| "page_step lay Opened (Draw_cutlines c) = (if lay = ''bottom'' then Some Ruled else None)"
| "page_step lay Ruled (Draw_image i x y d) = Some Filled"
| "page_step lay Filled (Draw_image i x y d) = Some Filled"
| "page_step lay Filled (Draw_cutlines c) = (if lay = ''top'' then Some Finished else None)"
| "page_step lay Filled Render_page = (if lay = ''top'' then None else Some Closed)"
| "page_step lay Finished Render_page = Some Closed"
| "page_step lay s c = None"

fun page_run :: "string \<Rightarrow> page_state \<Rightarrow> 'img call list \<Rightarrow> page_state option" where
  "page_run lay s [] = Some s"
| "page_run lay s (c # cs) =
     (case page_step lay s c of None \<Rightarrow> None | Some s' \<Rightarrow> page_run lay s' cs)"

definition pages_ok :: "string \<Rightarrow> 'img call list \<Rightarrow> bool" where
  "pages_ok lay cs = (page_run lay Closed cs = Some Closed)"

text \<open>The state of the page that goes with the counters: a page is open unless both are 0.\<close>

definition cursor_state :: "int \<times> int \<Rightarrow> page_state" where
  "cursor_state cnt = (if cnt = (0, 0) then Closed else Filled)"

text \<open>The counters lie within the grid of the layout.\<close>

definition in_grid :: "layout \<Rightarrow> int \<times> int \<Rightarrow> bool" where
  "in_grid L cnt =
     (0 \<le> fst cnt \<and> fst cnt < card_num_x L \<and> 0 \<le> snd cnt \<and> snd cnt < card_num_y L)"

text \<open>
  Whether a page is open after the calls \<open>cs\<close>, given whether one was open before them:
  \<open>_initialize_page\<close> opens a page and \<open>_render_page\<close> closes it.
\<close>

fun page_open :: "bool \<Rightarrow> 'img call list \<Rightarrow> bool" where
  "page_open b [] = b"
| "page_open b (Initialize_page # cs) = page_open True cs"
| "page_open b (Render_page # cs) = page_open False cs"
| "page_open b (c # cs) = page_open b cs"

text \<open>
  The number of images drawn on each page of a run, page by page: the images drawn
  between an \<open>_initialize_page\<close> and the next \<open>_render_page\<close>, \<open>k\<close> being the number
  drawn so far on the page that is open.
\<close>

fun page_sizes :: "nat \<Rightarrow> 'img call list \<Rightarrow> nat list" where
  "page_sizes k [] = []"
| "page_sizes k (Initialize_page # cs) = page_sizes 0 cs"
| "page_sizes k (Draw_image i x y d # cs) = page_sizes (Suc k) cs"
| "page_sizes k (Draw_cutlines c # cs) = page_sizes k cs"
| "page_sizes k (Render_page # cs) = k # page_sizes 0 cs"

text \<open>
  The number of pages in the words of the specification: the ceiling of the number of
  images over the number of cards per page.
\<close>

definition claimed_page_count :: "nat \<Rightarrow> nat \<Rightarrow> nat" where
  "claimed_page_count n cap = nat \<lceil>real n / real cap\<rceil>"

text \<open>
  The images per page in the words of the specification: full pages, then a last page with
  what remains if the number of images is not a multiple of the cards per page.
\<close>

definition claimed_page_sizes :: "nat \<Rightarrow> nat \<Rightarrow> nat list" where
  "claimed_page_sizes n cap =
     replicate (n div cap) cap @ (if n mod cap = 0 then [] else [n mod cap])"

text \<open>The number of cells of the page that come before the cell of the counters.\<close>

definition cell_index :: "layout \<Rightarrow> int \<times> int \<Rightarrow> nat" where
  "cell_index L cnt = nat (snd cnt * card_num_x L + fst cnt)"

subsection \<open>Concrete pages and configurations\<close>

text \<open>A page of 8.25 by 11 inches without margins, images at 300 dpi.\<close>

definition letter_page :: BaseGenerator where
  "letter_page = \<lparr>page_width = 33 / 4, page_height = 11, page_margin_x = 0,
     page_margin_y = 0, image_dpi = 300, page_dpi = 96\<rparr>"

text \<open>A page of 9 by 12 inches with half an inch of margin: 8 by 11 inches usable.\<close>

definition square_page :: BaseGenerator where
  "square_page = \<lparr>page_width = 9, page_height = 12, page_margin_x = 1 / 2,
     page_margin_y = 1 / 2, image_dpi = 300, page_dpi = 96\<rparr>"

definition clean_cut :: cutline_config where
  "clean_cut = \<lparr>trim_offset_x = 0, trim_offset_y = 0, layer = ''top''\<rparr>"

text \<open>A page whose margins exceed its width: the usable width is negative.\<close>

definition narrow_page :: BaseGenerator where
  "narrow_page = \<lparr>page_width = 2, page_height = 1, page_margin_x = 2,
     page_margin_y = 0, image_dpi = 300, page_dpi = 96\<rparr>"


text \<open>
  The scenario of the specification: a page of 2100 by 2970 units with margins of 30,
  images of 600 by 900 units (one pixel per unit).
\<close>

definition a4_page :: BaseGenerator where
  "a4_page = \<lparr>page_width = 2100, page_height = 2970, page_margin_x = 30,
     page_margin_y = 30, image_dpi = 1, page_dpi = 1\<rparr>"

text \<open>Catalogues of four and of ten images of 600 by 900, and the layout of the scenario.\<close>

definition four_cards :: "nat image_catalog" where
  "four_cards = \<lparr>image_size = (600, 900), image_set = [1, 2, 3, 4]\<rparr>"

definition ten_cards :: "nat image_catalog" where
  "ten_cards = \<lparr>image_size = (600, 900), image_set = [1, 2, 3, 4, 5, 6, 7, 8, 9, 10]\<rparr>"

definition a4_clean :: layout where
  "a4_clean = \<lparr>card_num_x = 3, cut_margin_x = 150, card_num_y = 3, cut_margin_y = 135,
          cutline_set = map (vertical_line 2970) [150, 750, 1350, 1950]
                        @ map (horizontal_line 2100) [135, 1035, 1935, 2835]\<rparr>"

text \<open>A configuration whose layer is neither \<open>top\<close> nor \<open>bottom\<close>.\<close>

definition glossy :: cutline_config where
  "glossy = \<lparr>trim_offset_x = 0, trim_offset_y = 0, layer = ''middle''\<rparr>"

text \<open>One image of 300 by 300 pixels, and the layout of the narrow page for it.\<close>

definition one_card :: "nat image_catalog" where
  "one_card = \<lparr>image_size = (300, 300), image_set = [1]\<rparr>"

definition narrow_layout :: layout where
  "narrow_layout = \<lparr>card_num_x = - 2, cut_margin_x = 2, card_num_y = 1, cut_margin_y = 0,
     cutline_set = [vertical_line 1 2, horizontal_line 2 0, horizontal_line 2 1]\<rparr>"

section \<open>Grid capacity\<close>

lemma py_int_of_int: "py_int (of_int n) = n"
  by (simp add: py_int_def)

lemma py_round_of_int: "py_round (of_int n) = n"
  by (simp add: py_round_def)

lemma py_round_Ints: "x \<in> \<int> \<Longrightarrow> of_int (py_round x) = x"
  by (auto simp: Ints_def py_round_of_int)

lemma grid_capacity_rounded:
  assumes "image_dpi g \<noteq> 0" "fst d \<noteq> 0" "snd d \<noteq> 0"
  shows "grid_capacity g d = Inr (rounded_grid_capacity g d)"
  using assms
  by (simp add: grid_capacity_def rounded_grid_capacity_def axis_capacity_def true_div_def
      py_divmod_def py_int_of_int Let_def mult.commute)

text \<open>
  Claim C1 on the code. The claim takes the number of cards as the floor of the usable
  length over the image length, and the cut margin as half of what is left plus the page
  margin. The code rounds the usable length to an integer before it divides (lines 137 to
  140), while the right-to-left placement of line 64 uses the page width as it is. On a
  page 8.25 inches wide without margins, with images of 825 pixels (2.75 inches) at 300
  dpi, the code rounds 8.25 to 8 and computes two cards per row and a cut margin of 1.25,
  where the formulas of the claim give three cards and a cut margin of 0. Every quantity
  of this computation is a binary fraction, so the floating-point operations are exact.
\<close>

theorem grid_capacity_counterexample:
  "grid_capacity letter_page (825, 900) = Inr (2, 5 / 4, 3, 1)
   \<and> claimed_grid_capacity letter_page (825, 900) = (3, 0, 3, 1)"
  by (simp add: grid_capacity_def letter_page_def true_div_def py_divmod_def py_round_def
      py_int_def claimed_grid_capacity_def axis_capacity_def)

text \<open>
  Where the usable width and height are integers other than zero, rounding leaves them as
  they are: an image exactly as large as the usable page area then fits once on each axis,
  and the cut margins are the page margins.
\<close>

theorem exact_fit:
  assumes "image_dpi g \<noteq> 0"
    and "fst d / image_dpi g = page_width g - 2 * page_margin_x g"
    and "snd d / image_dpi g = page_height g - 2 * page_margin_y g"
    and "page_width g - 2 * page_margin_x g \<in> \<int>"
    and "page_height g - 2 * page_margin_y g \<in> \<int>"
    and "page_width g - 2 * page_margin_x g \<noteq> 0"
    and "page_height g - 2 * page_margin_y g \<noteq> 0"
  shows "\<exists>L. generate_cut_line g d t = Inr L \<and> card_num_x L = 1 \<and> card_num_y L = 1
           \<and> cut_margin_x L = page_margin_x g \<and> cut_margin_y L = page_margin_y g"
proof -
  have dx: "fst d \<noteq> 0" and dy: "snd d \<noteq> 0"
    using assms by auto
  have "grid_capacity g d = Inr (rounded_grid_capacity g d)"
    using assms(1) dx dy by (rule grid_capacity_rounded)
  moreover have "rounded_grid_capacity g d = (1, page_margin_x g, 1, page_margin_y g)"
    using assms by (simp add: rounded_grid_capacity_def axis_capacity_def py_round_Ints)
  ultimately show ?thesis
    by (simp add: generate_cut_line_def)
qed

theorem exact_fit_witness:
  "image_dpi square_page \<noteq> 0
   \<and> fst (2400 :: real, 3300 :: real) / image_dpi square_page
       = page_width square_page - 2 * page_margin_x square_page
   \<and> snd (2400 :: real, 3300 :: real) / image_dpi square_page
       = page_height square_page - 2 * page_margin_y square_page
   \<and> (\<exists>L. generate_cut_line square_page (2400, 3300) (0, 0) = Inr L \<and> card_num_x L = 1
      \<and> card_num_y L = 1 \<and> cut_margin_x L = 1 / 2 \<and> cut_margin_y L = 1 / 2)"
  using exact_fit[of square_page "(2400, 3300)" "(0, 0)"]
  by (simp add: square_page_def)

text \<open>
  Claim C2 on the code. An image exactly as large as the usable page area should give one
  card per row and per column with the page margins as cut margins. An image of 2475 by
  3300 pixels at 300 dpi is exactly the 8.25 by 11 inches of the page without margins; the
  code rounds the usable width to 8 (lines 137 and 138), no card fits, and the layout is
  refused with the error for an image too large for the page. Every quantity of this
  computation is a binary fraction, so the floating-point operations are exact.
\<close>

theorem exact_fit_counterexample:
  "fst (2475 :: real, 3300 :: real) / image_dpi letter_page
     = page_width letter_page - 2 * page_margin_x letter_page
   \<and> snd (2475 :: real, 3300 :: real) / image_dpi letter_page
     = page_height letter_page - 2 * page_margin_y letter_page
   \<and> generate_cut_line letter_page (2475, 3300) (0, 0)
       = Inl (RuntimeError ''Image too large for the page'')"
  by (simp add: generate_cut_line_def grid_capacity_def letter_page_def true_div_def
      py_divmod_def py_round_def py_int_def)

text \<open>
  Claim C3. The layout fails with the "image too large" error exactly when the grid capacity
  was computed and the number of cards on one of the axes is zero; and whenever the layout
  fails, \<open>generate\<close> ends with that error without a call to any drawing hook.
\<close>

theorem layout_error_iff:
  "((\<exists>msg. generate_cut_line g d t = Inl (RuntimeError msg))
      \<longleftrightarrow> (\<exists>nx mx ny my. grid_capacity g d = Inr (nx, mx, ny, my) \<and> (nx = 0 \<or> ny = 0)))
   \<and> (\<forall>e. generate_cut_line g (image_size c) (trim_offset_x cfg, trim_offset_y cfg) = Inl e
          \<longrightarrow> generate g c cfg rtl = ([], Some e))"
proof -
  have gc: "grid_capacity g d = Inl ZeroDivisionError \<or> (\<exists>q. grid_capacity g d = Inr q)"
    by (auto simp: grid_capacity_def true_div_def py_divmod_def Let_def)
  then have "(\<exists>msg. generate_cut_line g d t = Inl (RuntimeError msg))
      \<longleftrightarrow> (\<exists>nx mx ny my. grid_capacity g d = Inr (nx, mx, ny, my) \<and> (nx = 0 \<or> ny = 0))"
    by (auto simp: generate_cut_line_def Let_def split: if_splits)
  moreover have "\<forall>e. generate_cut_line g (image_size c) (trim_offset_x cfg, trim_offset_y cfg) = Inl e
          \<longrightarrow> generate g c cfg rtl = ([], Some e)"
    by (simp add: generate_def)
  ultimately show ?thesis by blast
qed

theorem layout_error_iff_witness:
  "generate_cut_line letter_page (3000, 900) (0, 0)
     = Inl (RuntimeError ''Image too large for the page'')
   \<and> grid_capacity letter_page (3000, 900) = Inr (0, 4, 3, 1)
   \<and> generate letter_page \<lparr>image_size = (3000, 900), image_set = [1 :: nat, 2]\<rparr> clean_cut False
       = ([], Some (RuntimeError ''Image too large for the page''))"
proof -
  have a: "grid_capacity letter_page (3000, 900) = Inr (0, 4, 3, 1)"
    by (simp add: grid_capacity_def letter_page_def true_div_def py_divmod_def py_round_def
      py_int_def)
  have b: "generate_cut_line letter_page (3000, 900) (0, 0)
      = Inl (RuntimeError ''Image too large for the page'')"
    by (simp add: generate_cut_line_def a)
  from layout_error_iff[of letter_page "(3000, 900)" "(0, 0)"
      "\<lparr>image_size = (3000, 900), image_set = [1 :: nat, 2]\<rparr>" clean_cut False] a b
  show ?thesis by (simp add: clean_cut_def)
qed

section \<open>Cut lines\<close>

lemma length_vertical_loop:
  "length (vertical_loop ph w t n p) = (if t \<noteq> 0 then 2 * n else n)"
  by (induction n arbitrary: p) (simp_all add: Let_def)

lemma length_horizontal_loop:
  "length (horizontal_loop pw h t n p) = (if t \<noteq> 0 then 2 * n else n)"
  by (induction n arbitrary: p) (simp_all add: Let_def)






lemma generate_cut_line_Inr:
  assumes "generate_cut_line g d (tx, ty) = Inr L"
  shows "cutline_set L =
           vertical_cutlines g (fst d / image_dpi g) tx (card_num_x L) (cut_margin_x L)
           @ horizontal_cutlines g (snd d / image_dpi g) ty (card_num_y L) (cut_margin_y L)"
    and "card_num_x L \<noteq> 0" and "card_num_y L \<noteq> 0"
  using assms
  by (auto simp: generate_cut_line_def Let_def split: sum.splits prod.splits if_splits)

text \<open>
  Claim C4, as the code has it. In a successful layout the cut lines are the vertical ones
  followed by the horizontal ones. With at least one card per row there are
  \<open>card_num_x + 1\<close> vertical lines when the horizontal trim offset is zero and
  \<open>2 * card_num_x\<close> otherwise; with at least one card per column the same holds of the
  horizontal lines, \<open>card_num_y\<close> and the vertical trim offset.
\<close>

theorem cutline_count:
  assumes "generate_cut_line g d (tx, ty) = Inr L"
  shows "cutline_set L =
           vertical_cutlines g (fst d / image_dpi g) tx (card_num_x L) (cut_margin_x L)
           @ horizontal_cutlines g (snd d / image_dpi g) ty (card_num_y L) (cut_margin_y L)
       \<and> (1 \<le> card_num_x L \<longrightarrow>
            int (length (vertical_cutlines g (fst d / image_dpi g) tx (card_num_x L)
                   (cut_margin_x L)))
            = (if tx = 0 then card_num_x L + 1 else 2 * card_num_x L))
       \<and> (1 \<le> card_num_y L \<longrightarrow>
            int (length (horizontal_cutlines g (snd d / image_dpi g) ty (card_num_y L)
                   (cut_margin_y L)))
            = (if ty = 0 then card_num_y L + 1 else 2 * card_num_y L))"
  using generate_cut_line_Inr(1)[OF assms]
  by (simp add: vertical_cutlines_def horizontal_cutlines_def length_vertical_loop
      length_horizontal_loop Let_def)

lemma a4_layout:
  "generate_cut_line a4_page (600, 900) (0, 0) =
     Inr \<lparr>card_num_x = 3, cut_margin_x = 150, card_num_y = 3, cut_margin_y = 135,
          cutline_set = map (vertical_line 2970) [150, 750, 1350, 1950]
                        @ map (horizontal_line 2100) [135, 1035, 1935, 2835]\<rparr>"
  by (simp add: generate_cut_line_def grid_capacity_def a4_page_def true_div_def
      py_divmod_def py_round_def py_int_def vertical_cutlines_def horizontal_cutlines_def
      vertical_line_def horizontal_line_def eval_nat_numeral)

theorem cutline_count_witness:
  "generate_cut_line a4_page (600, 900) (0, 0) =
     Inr \<lparr>card_num_x = 3, cut_margin_x = 150, card_num_y = 3, cut_margin_y = 135,
          cutline_set = map (vertical_line 2970) [150, 750, 1350, 1950]
                        @ map (horizontal_line 2100) [135, 1035, 1935, 2835]\<rparr>
   \<and> length (vertical_cutlines a4_page 600 0 3 150) = 4
   \<and> length (horizontal_cutlines a4_page 900 0 3 135) = 4"
  using cutline_count[OF a4_layout] a4_layout
  by (simp add: a4_page_def)

text \<open>
  Claim C4 as stated fails for a layout with a negative number of cards, which the code
  accepts (only zero is refused): on a page 2 wide with margins of 2 the usable width is
  -2, \<open>card_num_x\<close> is -2, and there is one vertical line, not \<open>-2 + 1\<close>.
\<close>

theorem cutline_count_counterexample:
  "generate_cut_line narrow_page (300, 300) (0, 0) =
     Inr \<lparr>card_num_x = - 2, cut_margin_x = 2, card_num_y = 1, cut_margin_y = 0,
          cutline_set = [vertical_line 1 2, horizontal_line 2 0, horizontal_line 2 1]\<rparr>
   \<and> vertical_cutlines narrow_page (300 / 300) 0 (- 2) 2 = [vertical_line 1 2]"
  by (simp add: generate_cut_line_def grid_capacity_def narrow_page_def true_div_def
      py_divmod_def py_round_def py_int_def vertical_cutlines_def horizontal_cutlines_def
      vertical_line_def horizontal_line_def eval_nat_numeral)







section \<open>The loop over the images\<close>

lemma page_run_append:
  "page_run lay s (xs @ ys) =
     (case page_run lay s xs of None \<Rightarrow> None | Some s' \<Rightarrow> page_run lay s' ys)"
  by (induction xs arbitrary: s) (auto split: option.splits)

lemma loop_body_nonneg:
  assumes "0 \<le> fst cnt" "0 \<le> snd cnt"
  shows "0 \<le> fst (fst (loop_body g L cfg rtl w h cnt img))
       \<and> 0 \<le> snd (fst (loop_body g L cfg rtl w h cnt img))"
  using assms by (simp add: loop_body_def Let_def)

lemma loop_body_page_run:
  assumes "0 \<le> fst cnt" "0 \<le> snd cnt"
  shows "page_run (layer cfg) (cursor_state cnt) (snd (loop_body g L cfg rtl w h cnt img))
       = Some (cursor_state (fst (loop_body g L cfg rtl w h cnt img)))"
  using assms
  by (cases cnt) (auto simp: loop_body_def Let_def cursor_state_def)

lemma leftover_page_run:
  "page_run (layer cfg) (cursor_state cnt) (leftover cfg cnt) = Some Closed"
  by (cases cnt) (auto simp: leftover_def cursor_state_def)

lemma image_loop_Cons:
  "image_loop g L cfg rtl w h cnt (img # imgs) =
     (fst (image_loop g L cfg rtl w h (fst (loop_body g L cfg rtl w h cnt img)) imgs),
      snd (loop_body g L cfg rtl w h cnt img)
      @ snd (image_loop g L cfg rtl w h (fst (loop_body g L cfg rtl w h cnt img)) imgs))"
  by (simp add: split_beta)

lemma image_loop_page_run:
  assumes "0 \<le> fst cnt" "0 \<le> snd cnt"
  shows "page_run (layer cfg) (cursor_state cnt) (snd (image_loop g L cfg rtl w h cnt imgs))
       = Some (cursor_state (fst (image_loop g L cfg rtl w h cnt imgs)))"
  using assms
proof (induction imgs arbitrary: cnt)
  case Nil
  show ?case by simp
next
  case (Cons img imgs)
  let ?cnt1 = "fst (loop_body g L cfg rtl w h cnt img)"
  have nn: "0 \<le> fst ?cnt1" "0 \<le> snd ?cnt1"
    using loop_body_nonneg[OF Cons.prems, of g L cfg rtl w h img] by simp_all
  show ?case
    using Cons.IH[OF nn] loop_body_page_run[OF Cons.prems, of cfg g L rtl w h img]
    by (simp add: image_loop_Cons page_run_append del: image_loop.simps)
qed

lemma generate_cut_line_dpi:
  "generate_cut_line g d t = Inr L \<Longrightarrow> image_dpi g \<noteq> 0"
  by (auto simp: generate_cut_line_def grid_capacity_def true_div_def split: if_splits)

lemma generate_Inr:
  assumes "generate_cut_line g (image_size cat) (trim_offset_x cfg, trim_offset_y cfg) = Inr L"
  shows "generate g cat cfg rtl =
     (snd (image_loop g L cfg rtl (fst (image_size cat) / image_dpi g)
             (snd (image_size cat) / image_dpi g) (0, 0) (image_set cat))
      @ leftover cfg
          (fst (image_loop g L cfg rtl (fst (image_size cat) / image_dpi g)
             (snd (image_size cat) / image_dpi g) (0, 0) (image_set cat))), None)"
  using assms generate_cut_line_dpi[OF assms]
  by (simp add: generate_def true_div_def split_beta)

lemma generate_Inl:
  assumes "generate_cut_line g (image_size cat) (trim_offset_x cfg, trim_offset_y cfg) = Inl e"
  shows "generate g cat cfg rtl = ([], Some e)"
  using assms by (simp add: generate_def)

lemma generate_pages_ok: "pages_ok (layer cfg) (fst (generate g cat cfg rtl))"
proof (cases "generate_cut_line g (image_size cat) (trim_offset_x cfg, trim_offset_y cfg)")
  case (Inl e)
  then show ?thesis
    by (simp add: generate_Inl pages_ok_def)
next
  case (Inr L)
  have c0: "cursor_state (0, 0) = Closed"
    by (simp add: cursor_state_def)
  have "page_run (layer cfg) (cursor_state (0, 0))
          (snd (image_loop g L cfg rtl w h (0, 0) imgs)
           @ leftover cfg (fst (image_loop g L cfg rtl w h (0, 0) imgs))) = Some Closed"
    for w h and imgs :: "'a list"
    using image_loop_page_run[of "(0, 0)" cfg g L rtl w h imgs]
    by (simp add: page_run_append leftover_page_run)
  then show ?thesis
    by (simp add: generate_Inr[OF Inr] pages_ok_def c0)
qed


lemma image_loop_append:
  "image_loop g L cfg rtl w h cnt (xs @ ys) =
     (fst (image_loop g L cfg rtl w h (fst (image_loop g L cfg rtl w h cnt xs)) ys),
      snd (image_loop g L cfg rtl w h cnt xs)
      @ snd (image_loop g L cfg rtl w h (fst (image_loop g L cfg rtl w h cnt xs)) ys))"
  by (induction xs arbitrary: cnt) (simp_all add: image_loop_Cons del: image_loop.simps(2))

lemma loop_body_draw:
  "filter is_draw (snd (loop_body g L cfg rtl w h cnt img)) =
     [Draw_image img (fst (claimed_position g L rtl w h cnt))
        (snd (claimed_position g L rtl w h cnt)) (w, h)]"
  by (simp add: loop_body_def claimed_position_def Let_def)

lemma leftover_draw: "filter is_draw (leftover cfg cnt) = []"
  by (simp add: leftover_def)

lemma image_loop_draw:
  "filter is_draw (snd (image_loop g L cfg rtl w h cnt imgs)) =
     map (\<lambda>i. Draw_image (imgs ! i)
                (fst (claimed_position g L rtl w h
                        (fst (image_loop g L cfg rtl w h cnt (take i imgs)))))
                (snd (claimed_position g L rtl w h
                        (fst (image_loop g L cfg rtl w h cnt (take i imgs)))))
                (w, h))
       [0..<length imgs]"
proof (induction imgs rule: rev_induct)
  case Nil
  show ?case by simp
next
  case (snoc img imgs)
  show ?case
    by (simp add: image_loop_append image_loop_Cons loop_body_draw snoc.IH nth_append
        del: image_loop.simps(2))
qed

lemma draw_positions_aux:
  assumes "generate_cut_line g (image_size cat) (trim_offset_x cfg, trim_offset_y cfg) = Inr L"
  shows "filter is_draw (fst (generate g cat cfg rtl)) =
           map (\<lambda>i. Draw_image (image_set cat ! i)
                  (fst (claimed_position g L rtl (fst (image_size cat) / image_dpi g)
                     (snd (image_size cat) / image_dpi g)
                     (cursor_at g L cfg rtl (fst (image_size cat) / image_dpi g)
                        (snd (image_size cat) / image_dpi g) (image_set cat) i)))
                  (snd (claimed_position g L rtl (fst (image_size cat) / image_dpi g)
                     (snd (image_size cat) / image_dpi g)
                     (cursor_at g L cfg rtl (fst (image_size cat) / image_dpi g)
                        (snd (image_size cat) / image_dpi g) (image_set cat) i)))
                  (fst (image_size cat) / image_dpi g, snd (image_size cat) / image_dpi g))
             [0..<length (image_set cat)]"
  by (simp add: generate_Inr[OF assms] image_loop_draw leftover_draw cursor_at_def)


lemma a4_four_layout:
  "generate_cut_line a4_page (image_size four_cards)
     (trim_offset_x clean_cut, trim_offset_y clean_cut) = Inr a4_clean"
  using a4_layout by (simp add: four_cards_def clean_cut_def a4_clean_def)

text \<open>
  Claim C7. In a run whose layout succeeds, the images are drawn in catalogue order, each
  at the position of the counters with which its iteration starts: \<open>x_pos\<close> is
  \<open>page_width - cut_margin_x - (x_cnt + 1) * image_width\<close> when right-to-left is set and
  \<open>cut_margin_x + x_cnt * image_width\<close> otherwise, and \<open>y_pos\<close> is
  \<open>cut_margin_y + y_cnt * image_height\<close> in both modes. The same holds of one iteration
  from any counters.
\<close>

theorem draw_positions:
  assumes "generate_cut_line g (image_size cat) (trim_offset_x cfg, trim_offset_y cfg) = Inr L"
  shows "filter is_draw (fst (generate g cat cfg rtl)) =
           map (\<lambda>i. Draw_image (image_set cat ! i)
                  (fst (claimed_position g L rtl (fst (image_size cat) / image_dpi g)
                     (snd (image_size cat) / image_dpi g)
                     (cursor_at g L cfg rtl (fst (image_size cat) / image_dpi g)
                        (snd (image_size cat) / image_dpi g) (image_set cat) i)))
                  (snd (claimed_position g L rtl (fst (image_size cat) / image_dpi g)
                     (snd (image_size cat) / image_dpi g)
                     (cursor_at g L cfg rtl (fst (image_size cat) / image_dpi g)
                        (snd (image_size cat) / image_dpi g) (image_set cat) i)))
                  (fst (image_size cat) / image_dpi g, snd (image_size cat) / image_dpi g))
             [0..<length (image_set cat)]
       \<and> filter is_draw (snd (loop_body g L cfg rtl w h cnt img)) =
           [Draw_image img (fst (claimed_position g L rtl w h cnt))
              (snd (claimed_position g L rtl w h cnt)) (w, h)]
       \<and> snd (claimed_position g L True w h cnt) = snd (claimed_position g L False w h cnt)"
  using draw_positions_aux[OF assms] loop_body_draw[of g L cfg rtl w h cnt img]
  by (simp add: claimed_position_def)

lemma a4_four_rtl:
  "generate a4_page four_cards clean_cut True =
     ([Initialize_page, Draw_image 1 1350 135 (600, 900), Draw_image 2 750 135 (600, 900),
       Draw_image 3 150 135 (600, 900), Draw_image 4 1350 1035 (600, 900),
       Draw_cutlines clean_cut, Render_page], None)"
  by (subst generate_Inr[OF a4_four_layout])
     (simp add: loop_body_def leftover_def Let_def a4_clean_def a4_page_def four_cards_def
      clean_cut_def)

theorem draw_positions_witness:
  "generate_cut_line a4_page (image_size four_cards)
     (trim_offset_x clean_cut, trim_offset_y clean_cut) = Inr a4_clean
   \<and> filter is_draw (fst (generate a4_page four_cards clean_cut True)) =
       [Draw_image 1 1350 135 (600, 900), Draw_image 2 750 135 (600, 900),
        Draw_image 3 150 135 (600, 900), Draw_image 4 1350 1035 (600, 900)]
   \<and> claimed_position a4_page a4_clean True 600 900 (0, 0) = (1350, 135)
   \<and> claimed_position a4_page a4_clean True 600 900 (2, 0) = (150, 135)
   \<and> snd (claimed_position a4_page a4_clean True 600 900 (2, 0))
       = snd (claimed_position a4_page a4_clean False 600 900 (2, 0))"
proof -
  have r: "filter is_draw (fst (generate a4_page four_cards clean_cut True)) =
       [Draw_image 1 1350 135 (600, 900), Draw_image 2 750 135 (600, 900),
        Draw_image 3 150 135 (600, 900), Draw_image 4 1350 1035 (600, 900)]"
    by (simp add: a4_four_rtl)
  have p: "claimed_position a4_page a4_clean True 600 900 (0, 0) = (1350, 135)"
    "claimed_position a4_page a4_clean True 600 900 (2, 0) = (150, 135)"
    by (simp_all add: claimed_position_def a4_clean_def a4_page_def)
  from draw_positions[OF a4_four_layout, of True 600 900 "(2, 0)" 1]
  have "snd (claimed_position a4_page a4_clean True 600 900 (2, 0))
       = snd (claimed_position a4_page a4_clean False 600 900 (2, 0))"
    by blast
  with r p a4_four_layout show ?thesis
    by blast
qed


section \<open>Pages\<close>

lemma page_run_init_render:
  "page_run lay s cs = Some s' \<Longrightarrow>
   length (filter is_init cs) + (if s = Closed then 0 else 1)
     = length (filter is_render cs) + (if s' = Closed then 0 else 1)"
proof (induction cs arbitrary: s)
  case Nil
  then show ?case by simp
next
  case (Cons c cs)
  from Cons.prems obtain s1 where st: "page_step lay s c = Some s1"
    and run: "page_run lay s1 cs = Some s'"
    by (auto split: option.splits)
  from st have "(if is_init c then 1 else 0) + (if s = Closed then 0 else 1)
      = (if is_render c then 1 else 0) + (if s1 = Closed then 0 else (1::nat))"
    by (cases s; cases c) (auto split: if_splits)
  moreover have "length (filter P (c # cs)) = (if P c then 1 else 0) + length (filter P cs)"
    for P :: "'a call \<Rightarrow> bool"
    by simp
  ultimately show ?case
    using Cons.IH[OF run] by (simp only:)
qed

lemma page_run_bottom:
  "page_run ''bottom'' s cs = Some s' \<Longrightarrow>
   length (filter is_init cs) + (if s = Opened then 1 else 0)
     = length (filter is_cutlines cs) + (if s' = Opened then 1 else 0)"
proof (induction cs arbitrary: s)
  case Nil
  then show ?case by simp
next
  case (Cons c cs)
  from Cons.prems obtain s1 where st: "page_step ''bottom'' s c = Some s1"
    and run: "page_run ''bottom'' s1 cs = Some s'"
    by (auto split: option.splits)
  from st have "(if is_init c then 1 else 0) + (if s = Opened then 1 else 0)
      = (if is_cutlines c then 1 else 0) + (if s1 = Opened then 1 else (0::nat))"
    by (cases s; cases c) (auto split: if_splits)
  moreover have "length (filter P (c # cs)) = (if P c then 1 else 0) + length (filter P cs)"
    for P :: "'a call \<Rightarrow> bool"
    by simp
  ultimately show ?case
    using Cons.IH[OF run] by (simp only:)
qed

lemma page_run_top:
  "page_run ''top'' s cs = Some s' \<Longrightarrow>
   length (filter is_cutlines cs) + (if s = Finished then 1 else 0)
     = length (filter is_render cs) + (if s' = Finished then 1 else 0)"
proof (induction cs arbitrary: s)
  case Nil
  then show ?case by simp
next
  case (Cons c cs)
  from Cons.prems obtain s1 where st: "page_step ''top'' s c = Some s1"
    and run: "page_run ''top'' s1 cs = Some s'"
    by (auto split: option.splits)
  from st have "(if is_cutlines c then 1 else 0) + (if s = Finished then 1 else 0)
      = (if is_render c then 1 else 0) + (if s1 = Finished then 1 else (0::nat))"
    by (cases s; cases c) (auto split: if_splits)
  moreover have "length (filter P (c # cs)) = (if P c then 1 else 0) + length (filter P cs)"
    for P :: "'a call \<Rightarrow> bool"
    by simp
  ultimately show ?case
    using Cons.IH[OF run] by (simp only:)
qed

lemma pages_ok_counts:
  assumes "pages_ok lay cs"
  shows "length (filter is_init cs) = length (filter is_render cs)"
    and "lay = ''top'' \<or> lay = ''bottom'' \<Longrightarrow>
         length (filter is_cutlines cs) = length (filter is_init cs)"
proof -
  from assms have r: "page_run lay Closed cs = Some Closed"
    by (simp add: pages_ok_def)
  from page_run_init_render[OF r]
  show ir: "length (filter is_init cs) = length (filter is_render cs)"
    by simp
  assume "lay = ''top'' \<or> lay = ''bottom''"
  then show "length (filter is_cutlines cs) = length (filter is_init cs)"
  proof
    assume "lay = ''top''"
    with r page_run_top[of Closed cs Closed] ir show ?thesis by simp
  next
    assume "lay = ''bottom''"
    with r page_run_bottom[of Closed cs Closed] show ?thesis by simp
  qed
qed

text \<open>
  Claim C8. The calls of every run are a sequence of whole pages: each starts with
  \<open>_initialize_page\<close>, draws the cut lines next when the layer is \<open>bottom\<close>, then draws at
  least one image, draws the cut lines after the last image when the layer is \<open>top\<close>, and
  ends with \<open>_render_page\<close>; no page is left open. So as many pages are finished as are
  started, and for the layers \<open>top\<close> and \<open>bottom\<close> the cut lines are drawn once per page.
\<close>

theorem cutlines_once_per_page:
  "pages_ok (layer cfg) (fst (generate g cat cfg rtl))
   \<and> length (filter is_init (fst (generate g cat cfg rtl)))
       = length (filter is_render (fst (generate g cat cfg rtl)))
   \<and> (layer cfg = ''top'' \<or> layer cfg = ''bottom'' \<longrightarrow>
        length (filter is_cutlines (fst (generate g cat cfg rtl)))
        = length (filter is_init (fst (generate g cat cfg rtl))))"
  using pages_ok_counts[OF generate_pages_ok[of cfg g cat rtl]] generate_pages_ok[of cfg g cat rtl]
  by blast

lemma a4_ten_layout:
  "generate_cut_line a4_page (image_size ten_cards)
     (trim_offset_x clean_cut, trim_offset_y clean_cut) = Inr a4_clean"
  using a4_layout by (simp add: ten_cards_def clean_cut_def a4_clean_def)

lemma a4_clean_fields:
  "card_num_x a4_clean = 3" "card_num_y a4_clean = 3"
  "cut_margin_x a4_clean = 150" "cut_margin_y a4_clean = 135"
  by (simp_all add: a4_clean_def)

lemma a4_ten_top:
  "generate a4_page ten_cards clean_cut False =
     ([Initialize_page,
       Draw_image 1 150 135 (600, 900), Draw_image 2 750 135 (600, 900),
       Draw_image 3 1350 135 (600, 900), Draw_image 4 150 1035 (600, 900),
       Draw_image 5 750 1035 (600, 900), Draw_image 6 1350 1035 (600, 900),
       Draw_image 7 150 1935 (600, 900), Draw_image 8 750 1935 (600, 900),
       Draw_image 9 1350 1935 (600, 900),
       Draw_cutlines clean_cut, Render_page,
       Initialize_page, Draw_image 10 150 135 (600, 900),
       Draw_cutlines clean_cut, Render_page], None)"
proof -
  have l: "layer clean_cut = ''top''"
    by (simp add: clean_cut_def)
  have d: "fst (image_size ten_cards) / image_dpi a4_page = 600"
    "snd (image_size ten_cards) / image_dpi a4_page = 900"
    "image_set ten_cards = [1, 2, 3, 4, 5, 6, 7, 8, 9, 10]"
    by (simp_all add: ten_cards_def a4_page_def)
  show ?thesis
    unfolding generate_Inr[OF a4_ten_layout] d
    by (simp add: loop_body_def leftover_def Let_def a4_clean_fields l)
qed

theorem cutlines_once_per_page_witness:
  "layer clean_cut = ''top''
   \<and> pages_ok ''top'' (fst (generate a4_page ten_cards clean_cut False))
   \<and> length (filter is_init (fst (generate a4_page ten_cards clean_cut False))) = 2
   \<and> length (filter is_render (fst (generate a4_page ten_cards clean_cut False))) = 2
   \<and> length (filter is_cutlines (fst (generate a4_page ten_cards clean_cut False))) = 2"
proof -
  have l: "layer clean_cut = ''top''"
    by (simp add: clean_cut_def)
  have i: "length (filter is_init (fst (generate a4_page ten_cards clean_cut False))) = 2"
    by (simp add: a4_ten_top)
  from cutlines_once_per_page[of clean_cut a4_page ten_cards False] l i
  show ?thesis by simp
qed

section \<open>Layers other than top and bottom\<close>

lemma loop_body_layer_fst:
  "fst (loop_body g L cfg rtl w h cnt img) = fst (loop_body g L cfg' rtl w h cnt img)"
  by (simp add: loop_body_def Let_def)

lemma loop_body_layer_calls:
  "filter (\<lambda>c. \<not> is_cutlines c) (snd (loop_body g L cfg rtl w h cnt img))
     = filter (\<lambda>c. \<not> is_cutlines c) (snd (loop_body g L cfg' rtl w h cnt img))"
  by (simp add: loop_body_def Let_def)

lemma loop_body_no_cutlines:
  assumes "layer cfg \<noteq> ''top''" "layer cfg \<noteq> ''bottom''"
  shows "filter (\<lambda>c. \<not> is_cutlines c) (snd (loop_body g L cfg rtl w h cnt img))
     = snd (loop_body g L cfg rtl w h cnt img)"
  using assms by (simp add: loop_body_def Let_def)

lemma image_loop_layer:
  "fst (image_loop g L cfg rtl w h cnt imgs) = fst (image_loop g L cfg' rtl w h cnt imgs)
   \<and> filter (\<lambda>c. \<not> is_cutlines c) (snd (image_loop g L cfg rtl w h cnt imgs))
     = filter (\<lambda>c. \<not> is_cutlines c) (snd (image_loop g L cfg' rtl w h cnt imgs))"
proof (induction imgs arbitrary: cnt)
  case Nil
  show ?case by simp
next
  case (Cons img imgs)
  show ?case
    using Cons.IH[of "fst (loop_body g L cfg' rtl w h cnt img)"]
      loop_body_layer_fst[of g L cfg rtl w h cnt img cfg']
      loop_body_layer_calls[of g L cfg rtl w h cnt img cfg']
    by (simp add: image_loop_Cons del: image_loop.simps(2))
qed

lemma image_loop_no_cutlines:
  assumes "layer cfg \<noteq> ''top''" "layer cfg \<noteq> ''bottom''"
  shows "filter (\<lambda>c. \<not> is_cutlines c) (snd (image_loop g L cfg rtl w h cnt imgs))
     = snd (image_loop g L cfg rtl w h cnt imgs)"
  by (induction imgs arbitrary: cnt)
     (simp_all add: image_loop_Cons loop_body_no_cutlines[OF assms] del: image_loop.simps(2))

lemma leftover_layer:
  "filter (\<lambda>c. \<not> is_cutlines c) (leftover cfg cnt)
     = filter (\<lambda>c. \<not> is_cutlines c) (leftover cfg' cnt)"
  by (simp add: leftover_def)

lemma leftover_no_cutlines:
  assumes "layer cfg \<noteq> ''top''" "layer cfg \<noteq> ''bottom''"
  shows "filter (\<lambda>c. \<not> is_cutlines c) (leftover cfg cnt) = leftover cfg cnt"
  using assms by (simp add: leftover_def)

lemma generate_other_layer:
  assumes ok: "generate_cut_line g (image_size cat) (trim_offset_x cfg, trim_offset_y cfg) = Inr L"
    and nt: "layer cfg \<noteq> ''top''" and nb: "layer cfg \<noteq> ''bottom''"
  shows "fst (generate g cat cfg rtl)
     = filter (\<lambda>c. \<not> is_cutlines c) (fst (generate g cat (cfg\<lparr>layer := lay\<rparr>) rtl))"
proof -
  let ?cfg' = "cfg\<lparr>layer := lay\<rparr>"
  have ok': "generate_cut_line g (image_size cat) (trim_offset_x ?cfg', trim_offset_y ?cfg') = Inr L"
    using ok by simp
  let ?w = "fst (image_size cat) / image_dpi g" and ?h = "snd (image_size cat) / image_dpi g"
  have "filter (\<lambda>c. \<not> is_cutlines c) (fst (generate g cat cfg rtl))
     = filter (\<lambda>c. \<not> is_cutlines c) (fst (generate g cat ?cfg' rtl))"
    using image_loop_layer[of g L cfg rtl ?w ?h "(0, 0)" "image_set cat" ?cfg']
      leftover_layer[of cfg _ ?cfg']
    by (simp add: generate_Inr[OF ok] generate_Inr[OF ok'])
  moreover have "filter (\<lambda>c. \<not> is_cutlines c) (fst (generate g cat cfg rtl))
     = fst (generate g cat cfg rtl)"
    by (simp add: generate_Inr[OF ok] image_loop_no_cutlines[OF nt nb]
        leftover_no_cutlines[OF nt nb])
  ultimately show ?thesis by simp
qed

text \<open>
  Claim C10. When the layout succeeds and the layer is neither \<open>top\<close> nor \<open>bottom\<close>, the
  run ends without an error and draws no cut lines; its calls are those of the same run
  with the layer \<open>top\<close>, and of the same run with the layer \<open>bottom\<close>, with the cut-line
  calls left out: the same pages are started and finished and the same images are drawn at
  the same positions.
\<close>

theorem other_layer_no_cutlines:
  assumes "generate_cut_line g (image_size cat) (trim_offset_x cfg, trim_offset_y cfg) = Inr L"
    and "layer cfg \<noteq> ''top''" and "layer cfg \<noteq> ''bottom''"
  shows "snd (generate g cat cfg rtl) = None
       \<and> filter is_cutlines (fst (generate g cat cfg rtl)) = []
       \<and> fst (generate g cat cfg rtl)
           = filter (\<lambda>c. \<not> is_cutlines c) (fst (generate g cat (cfg\<lparr>layer := ''top''\<rparr>) rtl))
       \<and> fst (generate g cat cfg rtl)
           = filter (\<lambda>c. \<not> is_cutlines c) (fst (generate g cat (cfg\<lparr>layer := ''bottom''\<rparr>) rtl))
       \<and> pages_ok (layer cfg) (fst (generate g cat cfg rtl))"
proof -
  have a: "fst (generate g cat cfg rtl)
     = filter (\<lambda>c. \<not> is_cutlines c) (fst (generate g cat (cfg\<lparr>layer := lay\<rparr>) rtl))" for lay
    using assms by (rule generate_other_layer)
  have "filter is_cutlines (fst (generate g cat cfg rtl))
     = filter is_cutlines (filter (\<lambda>c. \<not> is_cutlines c)
         (fst (generate g cat (cfg\<lparr>layer := ''top''\<rparr>) rtl)))"
    using a[of "''top''"] by simp
  then have b: "filter is_cutlines (fst (generate g cat cfg rtl)) = []"
    by simp
  have c: "snd (generate g cat cfg rtl) = None"
    by (simp add: generate_Inr[OF assms(1)])
  from a[of "''top''"] a[of "''bottom''"] b c generate_pages_ok[of cfg g cat rtl]
  show ?thesis by blast
qed

lemma a4_four_glossy_layout:
  "generate_cut_line a4_page (image_size four_cards)
     (trim_offset_x glossy, trim_offset_y glossy) = Inr a4_clean"
  using a4_layout by (simp add: four_cards_def glossy_def a4_clean_def)

lemma a4_four_glossy:
  "generate a4_page four_cards glossy False =
     ([Initialize_page, Draw_image 1 150 135 (600, 900), Draw_image 2 750 135 (600, 900),
       Draw_image 3 1350 135 (600, 900), Draw_image 4 150 1035 (600, 900),
       Render_page], None)"
  by (subst generate_Inr[OF a4_four_glossy_layout])
     (simp add: loop_body_def leftover_def Let_def a4_clean_fields a4_page_def four_cards_def
      glossy_def)

theorem other_layer_no_cutlines_witness:
  "generate_cut_line a4_page (image_size four_cards)
     (trim_offset_x glossy, trim_offset_y glossy) = Inr a4_clean
   \<and> layer glossy \<noteq> ''top'' \<and> layer glossy \<noteq> ''bottom''
   \<and> generate a4_page four_cards glossy False =
     ([Initialize_page, Draw_image 1 150 135 (600, 900), Draw_image 2 750 135 (600, 900),
       Draw_image 3 1350 135 (600, 900), Draw_image 4 150 1035 (600, 900),
       Render_page], None)
   \<and> filter is_cutlines (fst (generate a4_page four_cards glossy False)) = []
   \<and> pages_ok (layer glossy) (fst (generate a4_page four_cards glossy False))"
proof -
  have l: "layer glossy \<noteq> ''top''" "layer glossy \<noteq> ''bottom''"
    by (simp_all add: glossy_def)
  from other_layer_no_cutlines[OF a4_four_glossy_layout l, of False]
    a4_four_glossy_layout l a4_four_glossy
  show ?thesis by blast
qed

section \<open>The counters of the loop\<close>

lemma page_open_append: "page_open b (xs @ ys) = page_open (page_open b xs) ys"
  by (induction b xs rule: page_open.induct) simp_all

lemma loop_body_in_grid:
  assumes "1 \<le> card_num_x L" "1 \<le> card_num_y L" "in_grid L cnt"
  shows "in_grid L (fst (loop_body g L cfg rtl w h cnt img))"
  using assms by (simp add: loop_body_def Let_def in_grid_def)

lemma image_loop_in_grid:
  assumes "1 \<le> card_num_x L" "1 \<le> card_num_y L"
  shows "in_grid L cnt \<Longrightarrow> in_grid L (fst (image_loop g L cfg rtl w h cnt imgs))"
proof (induction imgs arbitrary: cnt)
  case Nil
  then show ?case by simp
next
  case (Cons img imgs)
  show ?case
    using Cons.IH[OF loop_body_in_grid[OF assms Cons.prems, of g cfg rtl w h img]]
    by (simp add: image_loop_Cons del: image_loop.simps(2))
qed

lemma loop_body_reset_iff:
  assumes "0 \<le> fst cnt" "0 \<le> snd cnt"
  shows "fst (loop_body g L cfg rtl w h cnt img) = (0, 0)
     \<longleftrightarrow> Render_page \<in> set (snd (loop_body g L cfg rtl w h cnt img))"
  using assms by (auto simp: loop_body_def Let_def)

lemma loop_body_page_open:
  assumes "0 \<le> fst cnt" "0 \<le> snd cnt"
  shows "page_open (cnt \<noteq> (0, 0)) (snd (loop_body g L cfg rtl w h cnt img))
     = (fst (loop_body g L cfg rtl w h cnt img) \<noteq> (0, 0))"
  using assms by (cases cnt) (auto simp: loop_body_def Let_def page_open_append)

lemma image_loop_nonneg:
  assumes "0 \<le> fst cnt" "0 \<le> snd cnt"
  shows "0 \<le> fst (fst (image_loop g L cfg rtl w h cnt imgs))
       \<and> 0 \<le> snd (fst (image_loop g L cfg rtl w h cnt imgs))"
  using assms
proof (induction imgs arbitrary: cnt)
  case Nil
  then show ?case by simp
next
  case (Cons img imgs)
  show ?case
    using Cons.IH loop_body_nonneg[OF Cons.prems, of g L cfg rtl w h img]
    by (simp add: image_loop_Cons del: image_loop.simps(2))
qed

lemma image_loop_page_open:
  assumes "0 \<le> fst cnt" "0 \<le> snd cnt"
  shows "page_open (cnt \<noteq> (0, 0)) (snd (image_loop g L cfg rtl w h cnt imgs))
     = (fst (image_loop g L cfg rtl w h cnt imgs) \<noteq> (0, 0))"
  using assms
proof (induction imgs arbitrary: cnt)
  case Nil
  show ?case by simp
next
  case (Cons img imgs)
  let ?cnt1 = "fst (loop_body g L cfg rtl w h cnt img)"
  have nn: "0 \<le> fst ?cnt1" "0 \<le> snd ?cnt1"
    using loop_body_nonneg[OF Cons.prems, of g L cfg rtl w h img] by simp_all
  show ?case
    using Cons.IH[OF nn] loop_body_page_open[OF Cons.prems, of g L cfg rtl w h img]
    by (simp add: image_loop_Cons page_open_append del: image_loop.simps(2))
qed

lemma cursor_at_Suc:
  assumes "i < length imgs"
  shows "cursor_at g L cfg rtl w h imgs (Suc i)
     = fst (loop_body g L cfg rtl w h (cursor_at g L cfg rtl w h imgs i) (imgs ! i))"
  using assms
  by (simp add: cursor_at_def take_Suc_conv_app_nth image_loop_append image_loop_Cons
      del: image_loop.simps(2))

text \<open>
  Claim C9, as the code has it. When the layout has at least one card per row and per
  column, the counters at the start of every iteration (and after the last) satisfy
  \<open>0 \<le> x_cnt < card_num_x\<close> and \<open>0 \<le> y_cnt < card_num_y\<close>; an iteration leaves the
  counters at \<open>(0, 0)\<close> exactly when it calls \<open>_render_page\<close>; and the counters are
  \<open>(0, 0)\<close> at the start of an iteration exactly when no page is open.
\<close>

theorem cursor_invariant:
  assumes "1 \<le> card_num_x L" "1 \<le> card_num_y L"
  shows "(\<forall>i\<le>length imgs. in_grid L (cursor_at g L cfg rtl w h imgs i))
       \<and> (\<forall>i<length imgs.
            cursor_at g L cfg rtl w h imgs (Suc i) = (0, 0)
            \<longleftrightarrow> Render_page \<in> set (snd (loop_body g L cfg rtl w h
                                         (cursor_at g L cfg rtl w h imgs i) (imgs ! i))))
       \<and> (\<forall>i\<le>length imgs.
            cursor_at g L cfg rtl w h imgs i = (0, 0)
            \<longleftrightarrow> \<not> page_open False (snd (image_loop g L cfg rtl w h (0, 0) (take i imgs))))"
proof -
  have start: "in_grid L (0, 0)"
    using assms by (simp add: in_grid_def)
  have grid: "in_grid L (cursor_at g L cfg rtl w h imgs i)" for i
    unfolding cursor_at_def by (rule image_loop_in_grid[OF assms start])
  have reset: "cursor_at g L cfg rtl w h imgs (Suc i) = (0, 0)
      \<longleftrightarrow> Render_page \<in> set (snd (loop_body g L cfg rtl w h
                                   (cursor_at g L cfg rtl w h imgs i) (imgs ! i)))"
    if "i < length imgs" for i
  proof -
    have "0 \<le> fst (cursor_at g L cfg rtl w h imgs i)" "0 \<le> snd (cursor_at g L cfg rtl w h imgs i)"
      using grid[of i] by (simp_all add: in_grid_def)
    from loop_body_reset_iff[OF this] show ?thesis
      by (simp add: cursor_at_Suc[OF that])
  qed
  have fresh: "cursor_at g L cfg rtl w h imgs i = (0, 0)
      \<longleftrightarrow> \<not> page_open False (snd (image_loop g L cfg rtl w h (0, 0) (take i imgs)))" for i
    using image_loop_page_open[of "(0, 0)" g L cfg rtl w h "take i imgs"]
    by (simp add: cursor_at_def)
  from grid reset fresh show ?thesis by blast
qed

lemma a4_ten_cursors:
  "cursor_at a4_page a4_clean clean_cut False 600 900 (image_set ten_cards) 4 = (1, 1)"
  "cursor_at a4_page a4_clean clean_cut False 600 900 (image_set ten_cards) 8 = (2, 2)"
  "cursor_at a4_page a4_clean clean_cut False 600 900 (image_set ten_cards) (Suc 8) = (0, 0)"
  by (simp_all add: cursor_at_def loop_body_def Let_def a4_clean_fields ten_cards_def
      eval_nat_numeral)

theorem cursor_invariant_witness:
  "1 \<le> card_num_x a4_clean \<and> 1 \<le> card_num_y a4_clean
   \<and> cursor_at a4_page a4_clean clean_cut False 600 900 (image_set ten_cards) 4 = (1, 1)
   \<and> in_grid a4_clean
       (cursor_at a4_page a4_clean clean_cut False 600 900 (image_set ten_cards) 4)
   \<and> cursor_at a4_page a4_clean clean_cut False 600 900 (image_set ten_cards) (Suc 8) = (0, 0)
   \<and> Render_page \<in> set (snd (loop_body a4_page a4_clean clean_cut False 600 900
        (cursor_at a4_page a4_clean clean_cut False 600 900 (image_set ten_cards) 8)
        (image_set ten_cards ! 8)))"
proof -
  have c: "1 \<le> card_num_x a4_clean" "1 \<le> card_num_y a4_clean"
    by (simp_all add: a4_clean_fields)
  note T = cursor_invariant[OF c, of "image_set ten_cards" a4_page clean_cut False 600 900]
  have n: "(4::nat) \<le> length (image_set ten_cards)" "(8::nat) < length (image_set ten_cards)"
    by (simp_all add: ten_cards_def)
  from T n have "in_grid a4_clean
       (cursor_at a4_page a4_clean clean_cut False 600 900 (image_set ten_cards) 4)"
    and "cursor_at a4_page a4_clean clean_cut False 600 900 (image_set ten_cards) (Suc 8) = (0, 0)
      \<longleftrightarrow> Render_page \<in> set (snd (loop_body a4_page a4_clean clean_cut False 600 900
        (cursor_at a4_page a4_clean clean_cut False 600 900 (image_set ten_cards) 8)
        (image_set ten_cards ! 8)))"
    by blast+
  with c a4_ten_cursors(1,3) show ?thesis
    by blast
qed

text \<open>
  Claim C9 as stated fails for a layout with a negative number of cards per row, which the
  code accepts: on the page 2 wide with margins of 2, \<open>card_num_x\<close> is -2, the run
  draws its image without an error, and the counters \<open>(0, 0)\<close> at the start of the first
  iteration do not satisfy \<open>x_cnt < card_num_x\<close>.
\<close>

lemma narrow_one_layout:
  "generate_cut_line narrow_page (image_size one_card)
     (trim_offset_x clean_cut, trim_offset_y clean_cut) = Inr narrow_layout"
  by (simp add: generate_cut_line_def grid_capacity_def narrow_page_def true_div_def
      py_divmod_def py_round_def py_int_def vertical_cutlines_def horizontal_cutlines_def
      vertical_line_def horizontal_line_def one_card_def clean_cut_def narrow_layout_def)

theorem cursor_invariant_counterexample:
  "generate_cut_line narrow_page (image_size one_card)
     (trim_offset_x clean_cut, trim_offset_y clean_cut) = Inr narrow_layout
   \<and> generate narrow_page one_card clean_cut False
       = ([Initialize_page, Draw_image 1 2 0 (1, 1), Draw_cutlines clean_cut, Render_page], None)
   \<and> cursor_at narrow_page narrow_layout clean_cut False 1 1 (image_set one_card) 0 = (0, 0)
   \<and> card_num_x narrow_layout = - 2
   \<and> \<not> in_grid narrow_layout (0, 0)"
proof -
  have "generate narrow_page one_card clean_cut False
       = ([Initialize_page, Draw_image 1 2 0 (1, 1), Draw_cutlines clean_cut, Render_page], None)"
    by (subst generate_Inr[OF narrow_one_layout])
       (simp add: loop_body_def leftover_def Let_def narrow_layout_def narrow_page_def
        one_card_def clean_cut_def)
  then show ?thesis
    using narrow_one_layout
    by (simp add: cursor_at_def in_grid_def narrow_layout_def)
qed

section \<open>The number of pages\<close>

lemma length_page_sizes: "length (page_sizes k cs) = length (filter is_render cs)"
  by (induction k cs rule: page_sizes.induct) simp_all

lemma claimed_page_count_eq:
  assumes "0 < cap"
  shows "claimed_page_count n cap = n div cap + (if n mod cap = 0 then 0 else 1)"
proof -
  have "\<lceil>real n / real cap\<rceil> = \<lceil>of_int (int n) / (of_int (int cap) :: real)\<rceil>"
    by simp
  also have "\<dots> = - (- int n div int cap)"
    by (rule ceiling_divide_eq_div)
  also have "\<dots> = int n div int cap + (if int n mod int cap = 0 then 0 else 1)"
    using assms by (simp add: zdiv_zminus1_eq_if)
  also have "\<dots> = int (n div cap + (if n mod cap = 0 then 0 else 1))"
  proof -
    have m: "(int n mod int cap = 0) = (n mod cap = 0)"
      by (simp flip: of_nat_mod)
    have d: "int n div int cap = int (n div cap)"
      by (simp add: of_nat_div)
    show ?thesis
      unfolding m d by simp
  qed
  finally show ?thesis
    by (simp add: claimed_page_count_def)
qed

lemma length_claimed_page_sizes:
  "0 < cap \<Longrightarrow> length (claimed_page_sizes n cap) = claimed_page_count n cap"
  by (simp add: claimed_page_count_eq claimed_page_sizes_def)

lemma claimed_page_sizes_full:
  "0 < cap \<Longrightarrow> claimed_page_sizes (cap + n) cap = cap # claimed_page_sizes n cap"
  by (simp add: claimed_page_sizes_def)

lemma claimed_page_sizes_part:
  "0 < n \<Longrightarrow> n < cap \<Longrightarrow> claimed_page_sizes n cap = [n]"
  by (simp add: claimed_page_sizes_def)

lemma loop_body_sizes:
  "page_sizes k (snd (loop_body g L cfg rtl w h cnt img) @ rest) =
     (if Render_page \<in> set (snd (loop_body g L cfg rtl w h cnt img))
      then Suc (if cnt = (0, 0) then 0 else k) # page_sizes 0 rest
      else page_sizes (Suc (if cnt = (0, 0) then 0 else k)) rest)"
  by (cases cnt) (simp add: loop_body_def Let_def)

lemma leftover_sizes:
  "page_sizes k (leftover cfg cnt) = (if cnt = (0, 0) then [] else [k])"
  by (cases cnt) (auto simp: leftover_def)


lemma loop_body_render_iff:
  "Render_page \<in> set (snd (loop_body g L cfg rtl w h cnt img))
     \<longleftrightarrow> card_num_y L \<le> (if card_num_x L \<le> fst cnt + 1 then snd cnt + 1 else snd cnt)"
  by (auto simp: loop_body_def Let_def)

lemma loop_body_next:
  "fst (loop_body g L cfg rtl w h cnt img) =
     (if card_num_y L \<le> (if card_num_x L \<le> fst cnt + 1 then snd cnt + 1 else snd cnt)
      then (0, 0)
      else if card_num_x L \<le> fst cnt + 1 then (0, snd cnt + 1) else (fst cnt + 1, snd cnt))"
  by (simp add: loop_body_def Let_def)

lemma grid_arith:
  fixes x y c r :: int
  assumes "0 \<le> x" "x < c" "0 \<le> y" "y < r"
  shows "0 \<le> y * c + x" and "y * c + x < c * r"
    and "r \<le> (if c \<le> x + 1 then y + 1 else y) \<longleftrightarrow> y * c + x + 1 = c * r"
    and "(if c \<le> x + 1 then (y + 1) * c + 0 else y * c + (x + 1)) = y * c + x + 1"
    and "(x, y) \<noteq> (0, 0) \<Longrightarrow> 0 < y * c + x"
proof -
  have c0: "0 < c" using assms by linarith
  have yc: "0 \<le> y * c" using assms c0 by simp
  have "(y + 1) * c \<le> r * c"
    using assms c0 by (intro mult_right_mono) linarith+
  then have le: "y * c + c \<le> c * r"
    by (simp add: algebra_simps)
  have eq: "y * c + c = c * r \<longleftrightarrow> y + 1 = r"
  proof -
    have "y * c + c = c * r \<longleftrightarrow> (y + 1) * c = r * c"
      by (simp add: algebra_simps)
    also have "\<dots> \<longleftrightarrow> y + 1 = r"
      using c0 by simp
    finally show ?thesis .
  qed
  show "0 \<le> y * c + x" using yc assms by linarith
  show "y * c + x < c * r" using le assms by linarith
  show "r \<le> (if c \<le> x + 1 then y + 1 else y) \<longleftrightarrow> y * c + x + 1 = c * r"
  proof (cases "c \<le> x + 1")
    case True
    then have "x + 1 = c" using assms by linarith
    then show ?thesis using True eq assms by auto
  next
    case False
    then have "y * c + x + 1 < c * r" using le by linarith
    then show ?thesis using False assms by auto
  qed
  show "(if c \<le> x + 1 then (y + 1) * c + 0 else y * c + (x + 1)) = y * c + x + 1"
    using assms by (auto simp: algebra_simps)
  show "0 < y * c + x" if "(x, y) \<noteq> (0, 0)"
  proof (cases "y = 0")
    case True
    then show ?thesis using that assms by auto
  next
    case False
    then have "1 \<le> y" using assms by linarith
    then have "1 * c \<le> y * c"
      using c0 by (intro mult_right_mono) linarith+
    then show ?thesis using c0 assms by linarith
  qed
qed

lemma loop_body_index:
  assumes c: "1 \<le> card_num_x L" and r: "1 \<le> card_num_y L" and g: "in_grid L cnt"
  shows "Render_page \<in> set (snd (loop_body g' L cfg rtl w h cnt img))
           \<longleftrightarrow> Suc (cell_index L cnt) = nat (card_num_x L * card_num_y L)"
    and "Render_page \<notin> set (snd (loop_body g' L cfg rtl w h cnt img))
           \<Longrightarrow> cell_index L (fst (loop_body g' L cfg rtl w h cnt img)) = Suc (cell_index L cnt)"
    and "cell_index L cnt < nat (card_num_x L * card_num_y L)"
    and "cnt \<noteq> (0, 0) \<Longrightarrow> 0 < cell_index L cnt"
proof -
  obtain x y where cnt: "cnt = (x, y)" by (cases cnt)
  have b: "0 \<le> x" "x < card_num_x L" "0 \<le> y" "y < card_num_y L"
    using g by (simp_all add: in_grid_def cnt)
  note A = grid_arith[OF b]
  have sn: "Suc (nat p) = nat q \<longleftrightarrow> p + 1 = q" if "0 \<le> p" "p < q" for p q :: int
    using that by linarith
  have "Render_page \<in> set (snd (loop_body g' L cfg rtl w h cnt img))
      \<longleftrightarrow> card_num_y L \<le> (if card_num_x L \<le> x + 1 then y + 1 else y)"
    by (simp only: loop_body_render_iff cnt fst_conv snd_conv)
  also have "\<dots> \<longleftrightarrow> y * card_num_x L + x + 1 = card_num_x L * card_num_y L"
    by (rule A(3))
  also have "\<dots> \<longleftrightarrow> Suc (cell_index L cnt) = nat (card_num_x L * card_num_y L)"
    using sn[OF A(1,2)] by (simp only: cell_index_def cnt fst_conv snd_conv)
  finally show "Render_page \<in> set (snd (loop_body g' L cfg rtl w h cnt img))
           \<longleftrightarrow> Suc (cell_index L cnt) = nat (card_num_x L * card_num_y L)" .
  show "cell_index L (fst (loop_body g' L cfg rtl w h cnt img)) = Suc (cell_index L cnt)"
    if "Render_page \<notin> set (snd (loop_body g' L cfg rtl w h cnt img))"
    using that A(1,4) by (auto simp: loop_body_render_iff loop_body_next cell_index_def cnt)
  show "cell_index L cnt < nat (card_num_x L * card_num_y L)"
    using A(1,2) by (simp add: cell_index_def cnt)
  show "0 < cell_index L cnt" if "cnt \<noteq> (0, 0)"
    using A(5) that by (simp add: cell_index_def cnt)
qed


lemma cell_index_origin: "cell_index L (0, 0) = 0"
  by (simp add: cell_index_def)

lemma image_loop_sizes:
  assumes c: "1 \<le> card_num_x L" and r: "1 \<le> card_num_y L"
  shows "in_grid L cnt \<Longrightarrow>
     page_sizes (cell_index L cnt)
       (snd (image_loop g L cfg rtl w h cnt imgs)
        @ leftover cfg (fst (image_loop g L cfg rtl w h cnt imgs)))
     = claimed_page_sizes (cell_index L cnt + length imgs) (nat (card_num_x L * card_num_y L))"
proof (induction imgs arbitrary: cnt)
  case Nil
  show ?case
  proof (cases "cnt = (0, 0)")
    case True
    then show ?thesis
      by (simp add: leftover_sizes cell_index_origin claimed_page_sizes_def)
  next
    case False
    from loop_body_index(3)[OF c r Nil.prems] loop_body_index(4)[OF c r Nil.prems] False
    show ?thesis
      by (simp add: leftover_sizes claimed_page_sizes_part)
  qed
next
  case (Cons img imgs)
  let ?cap = "nat (card_num_x L * card_num_y L)"
  let ?cnt1 = "fst (loop_body g L cfg rtl w h cnt img)"
  let ?rest = "snd (image_loop g L cfg rtl w h ?cnt1 imgs)
        @ leftover cfg (fst (image_loop g L cfg rtl w h ?cnt1 imgs))"
  have k: "(if cnt = (0, 0) then 0 else cell_index L cnt) = cell_index L cnt"
    by (simp add: cell_index_origin)
  have grid1: "in_grid L ?cnt1"
    by (rule loop_body_in_grid[OF c r Cons.prems])
  have nn: "0 \<le> fst cnt" "0 \<le> snd cnt"
    using Cons.prems by (simp_all add: in_grid_def)
  have split: "page_sizes (cell_index L cnt)
       (snd (image_loop g L cfg rtl w h cnt (img # imgs))
        @ leftover cfg (fst (image_loop g L cfg rtl w h cnt (img # imgs))))
     = (if Render_page \<in> set (snd (loop_body g L cfg rtl w h cnt img))
        then Suc (cell_index L cnt) # page_sizes 0 ?rest
        else page_sizes (Suc (cell_index L cnt)) ?rest)"
    using loop_body_sizes[of "cell_index L cnt" g L cfg rtl w h cnt img ?rest]
    by (simp add: image_loop_Cons k del: image_loop.simps(2))
  show ?case
  proof (cases "Render_page \<in> set (snd (loop_body g L cfg rtl w h cnt img))")
    case True
    then have full: "Suc (cell_index L cnt) = ?cap"
      using loop_body_index(1)[OF c r Cons.prems, of g cfg rtl w h img] by simp
    have zero: "?cnt1 = (0, 0)"
      using True loop_body_reset_iff[OF nn, of g L cfg rtl w h img] by simp
    have "page_sizes 0 ?rest = claimed_page_sizes (length imgs) ?cap"
      using Cons.IH[OF grid1] by (simp add: zero cell_index_origin)
    moreover have "claimed_page_sizes (cell_index L cnt + length (img # imgs)) ?cap
        = ?cap # claimed_page_sizes (length imgs) ?cap"
    proof -
      have "cell_index L cnt + length (img # imgs) = ?cap + length imgs"
        using full by simp
      moreover have "0 < ?cap" using full by linarith
      ultimately show ?thesis
        by (simp only: claimed_page_sizes_full)
    qed
    ultimately show ?thesis
      using True full by (simp only: split if_True)
  next
    case False
    have "cell_index L ?cnt1 = Suc (cell_index L cnt)"
      using loop_body_index(2)[OF c r Cons.prems, of g cfg rtl w h img] False by simp
    then have "page_sizes (Suc (cell_index L cnt)) ?rest
        = claimed_page_sizes (Suc (cell_index L cnt) + length imgs) ?cap"
      using Cons.IH[OF grid1] by simp
    then show ?thesis
      using False by (simp only: split if_False) simp
  qed
qed


text \<open>
  Claim C6. When the layout succeeds with \<open>c \<ge> 1\<close> cards per row and \<open>r \<ge> 1\<close> per
  column, a run over \<open>N\<close> images ends without an error, its calls are whole pages, it
  starts and finishes exactly the ceiling of \<open>N / (c * r)\<close> pages, and every page
  receives \<open>c * r\<close> images except that the last receives \<open>N mod (c * r)\<close> when that is
  not zero. An empty catalogue makes no call at all.
\<close>

theorem page_count:
  assumes "generate_cut_line g (image_size cat) (trim_offset_x cfg, trim_offset_y cfg) = Inr L"
    and "1 \<le> card_num_x L" and "1 \<le> card_num_y L"
  shows "snd (generate g cat cfg rtl) = None
       \<and> pages_ok (layer cfg) (fst (generate g cat cfg rtl))
       \<and> page_sizes 0 (fst (generate g cat cfg rtl))
           = claimed_page_sizes (length (image_set cat)) (nat (card_num_x L * card_num_y L))
       \<and> length (filter is_init (fst (generate g cat cfg rtl)))
           = claimed_page_count (length (image_set cat)) (nat (card_num_x L * card_num_y L))
       \<and> length (filter is_render (fst (generate g cat cfg rtl)))
           = claimed_page_count (length (image_set cat)) (nat (card_num_x L * card_num_y L))
       \<and> (image_set cat = [] \<longrightarrow> fst (generate g cat cfg rtl) = [])"
proof -
  let ?cap = "nat (card_num_x L * card_num_y L)"
  let ?tr = "fst (generate g cat cfg rtl)"
  have cap: "0 < ?cap"
    using assms(2,3) by (simp add: zero_less_mult_iff)
  have start: "in_grid L (0, 0)"
    using assms(2,3) by (simp add: in_grid_def)
  have none: "snd (generate g cat cfg rtl) = None"
    by (simp add: generate_Inr[OF assms(1)])
  have ok: "pages_ok (layer cfg) ?tr"
    by (rule generate_pages_ok)
  have sizes: "page_sizes 0 ?tr = claimed_page_sizes (length (image_set cat)) ?cap"
    using image_loop_sizes[OF assms(2,3) start, of g cfg rtl
        "fst (image_size cat) / image_dpi g" "snd (image_size cat) / image_dpi g" "image_set cat"]
    by (simp add: generate_Inr[OF assms(1)] cell_index_origin)
  have "length (filter is_render ?tr) = length (page_sizes 0 ?tr)"
    by (simp add: length_page_sizes)
  then have render: "length (filter is_render ?tr)
      = claimed_page_count (length (image_set cat)) ?cap"
    by (simp add: sizes length_claimed_page_sizes[OF cap])
  have init: "length (filter is_init ?tr) = claimed_page_count (length (image_set cat)) ?cap"
    using pages_ok_counts(1)[OF ok] render by simp
  have empty: "image_set cat = [] \<longrightarrow> ?tr = []"
    by (simp add: generate_Inr[OF assms(1)] leftover_def)
  from none ok sizes init render empty show ?thesis by blast
qed

theorem page_count_witness:
  "generate_cut_line a4_page (image_size ten_cards)
     (trim_offset_x clean_cut, trim_offset_y clean_cut) = Inr a4_clean
   \<and> 1 \<le> card_num_x a4_clean \<and> 1 \<le> card_num_y a4_clean
   \<and> snd (generate a4_page ten_cards clean_cut False) = None
   \<and> page_sizes 0 (fst (generate a4_page ten_cards clean_cut False)) = [9, 1]
   \<and> length (filter is_init (fst (generate a4_page ten_cards clean_cut False))) = 2
   \<and> length (filter is_render (fst (generate a4_page ten_cards clean_cut False))) = 2"
proof -
  have c: "1 \<le> card_num_x a4_clean" "1 \<le> card_num_y a4_clean"
    by (simp_all add: a4_clean_fields)
  have n: "length (image_set ten_cards) = 10" "nat (card_num_x a4_clean * card_num_y a4_clean) = 9"
    by (simp_all add: ten_cards_def a4_clean_fields)
  have s: "claimed_page_sizes 10 9 = [9, 1]"
    by (simp add: claimed_page_sizes_def)
  have k: "claimed_page_count 10 9 = 2"
    by (simp add: claimed_page_count_def)
  from page_count[OF a4_ten_layout c, of False] a4_ten_layout c
  show ?thesis
    by (simp add: n s k)
qed

end
